theory Spec2Isabelle
  imports Main
begin


section \<open>Data model of \<open>smart_commit/core/gitops.py\<close>\<close>

text \<open>
  A path as Python holds it: \<open>Some s\<close> for a \<open>str\<close>, \<open>None\<close> for Python's \<open>None\<close>.
  GitPython types the two paths of a diff entry as \<open>Optional[str]\<close>.
\<close>

type_synonym path = "string option"

text \<open>One entry of a GitPython \<open>DiffIndex\<close>, with the four attributes the code reads.\<close>

record diff_item =
  a_path :: path
  b_path :: path
  new_file :: bool
  deleted_file :: bool

text \<open>The dict \<open>{"file": f, "status": s}\<close> that \<open>get_changes\<close> appends.\<close>

record change =
  change_file :: path
  change_status :: string

record stash_entry =
  stash_message :: string
  stash_diffs :: "diff_item list"

text \<open>A commit as far as this module decides it: branch, message, paths taken from the index.\<close>

record commit_entry =
  commit_branch :: string
  commit_message :: string
  commit_paths :: "string list"

datatype head_ref = Branch string | Detached

datatype error =
    GitCommandError string
  | BadName string
  | TypeError string

text \<open>
  The repository behind \<open>self.repo\<close>, as the calls of this module observe and change it.

  \<^item> \<open>head\<close> is where HEAD points; \<open>branches\<close> are the local branch refs. HEAD is valid when
    it is detached at a commit or names an existing ref; a repository with zero commits has
    HEAD on a branch that is not yet a ref.
  \<^item> \<open>untracked_files\<close>, \<open>index_diff_worktree\<close> and \<open>index_diff_head\<close> are what
    \<open>repo.untracked_files\<close>, \<open>repo.index.diff(None)\<close> and \<open>repo.index.diff("HEAD")\<close> report.
  \<^item> \<open>index_added\<close> logs the paths handed to \<open>repo.index.add\<close> since the last commit.
  \<^item> \<open>index_removed\<close> logs the paths whose removal has been staged
    (\<open>repo.index.remove\<close>) since the last commit; no function of \<open>gitops.py\<close> writes it.
  \<^item> \<open>blocked\<close> are the branches git refuses to switch to in the present working tree
    (local changes would be overwritten); \<open>stash_conflict\<close> says that applying the top
    stash entry to the present working tree fails.
\<close>

record repo =
  head :: head_ref
  branches :: "string list"
  commits :: "commit_entry list"
  untracked_files :: "string list"
  index_diff_worktree :: "diff_item list"
  index_diff_head :: "diff_item list"
  index_added :: "string list"
  index_removed :: "string list"
  stash :: "stash_entry list"
  blocked :: "string list"
  stash_conflict :: bool

definition head_is_valid :: "repo \<Rightarrow> bool" where
  "head_is_valid r = (case head r of Detached \<Rightarrow> True | Branch b \<Rightarrow> b \<in> set (branches r))"

text \<open>\<open>repo.index.diff("HEAD")\<close> resolves the ref first and raises when there is no commit.\<close>

definition index_diff_HEAD :: "repo \<Rightarrow> error + diff_item list" where
  "index_diff_HEAD r =
     (if head_is_valid r then Inr (index_diff_head r) else Inl (BadName ''HEAD''))"

text \<open>Python's \<open>a or b\<close> on optional strings: \<open>None\<close> and the empty string are falsy.\<close>

definition py_or :: "path \<Rightarrow> path \<Rightarrow> path" where
  "py_or a b = (case a of Some (c # cs) \<Rightarrow> a | _ \<Rightarrow> b)"

definition item_path :: "diff_item \<Rightarrow> path" where
  "item_path item = py_or (a_path item) (b_path item)"

section \<open>\<open>GitOps.get_changes\<close>\<close>

text \<open>
  The body shared by the three loops: \<^verbatim>\<open>if f not in seen: seen.add(f); if include_excluded
  or not is_excluded(f): changes.append({"file": f, "status": status})\<close>. The state of the
  loops is the pair \<open>(changes, seen)\<close>. \<open>is_excluded\<close> is imported from \<open>utils/security.py\<close>,
  whose source is missing, and is a parameter.
\<close>

definition add_change ::
  "(path \<Rightarrow> bool) \<Rightarrow> bool \<Rightarrow> path \<Rightarrow> string \<Rightarrow> change list \<times> path set \<Rightarrow> change list \<times> path set"
where
  "add_change is_excluded include_excluded f st acc =
     (case acc of (changes, seen) \<Rightarrow>
        if f \<notin> seen then
          (if include_excluded \<or> \<not> is_excluded f
           then changes @ [\<lparr>change_file = f, change_status = st\<rparr>] else changes,
           insert f seen)
        else (changes, seen))"

definition unstaged_status :: "diff_item \<Rightarrow> string" where
  "unstaged_status item = (if deleted_file item then ''D'' else ''M'')"

definition staged_status :: "diff_item \<Rightarrow> string" where
  "staged_status item =
     (if new_file item then ''A'' else if deleted_file item then ''D'' else ''M'')"

definition get_changes :: "(path \<Rightarrow> bool) \<Rightarrow> repo \<Rightarrow> bool \<Rightarrow> error + change list" where
  "get_changes is_excluded r include_excluded =
     (let acc0 = ([], {});
          acc1 = fold (\<lambda>f. add_change is_excluded include_excluded (Some f) ''U'')
                   (untracked_files r) acc0;
          acc2 = fold (\<lambda>item. add_change is_excluded include_excluded
                                 (item_path item) (unstaged_status item))
                   (index_diff_worktree r) acc1
      in if head_is_valid r then
           (case index_diff_HEAD r of
              Inl e \<Rightarrow> Inl e
            | Inr items \<Rightarrow>
                Inr (fst (fold (\<lambda>item. add_change is_excluded include_excluded
                                         (item_path item) (staged_status item))
                           items acc2)))
         else Inr (fst acc2))"

section \<open>\<open>GitOps.get_excluded_changes\<close>\<close>

text \<open>\<^verbatim>\<open>if f not in seen and is_excluded(f): seen.add(f); excluded.append(f)\<close>\<close>

definition add_excluded ::
  "(path \<Rightarrow> bool) \<Rightarrow> path \<Rightarrow> path list \<times> path set \<Rightarrow> path list \<times> path set"
where
  "add_excluded is_excluded f acc =
     (case acc of (excluded, seen) \<Rightarrow>
        if f \<notin> seen \<and> is_excluded f then (excluded @ [f], insert f seen)
        else (excluded, seen))"

definition get_excluded_changes :: "(path \<Rightarrow> bool) \<Rightarrow> repo \<Rightarrow> error + path list" where
  "get_excluded_changes is_excluded r =
     (let acc0 = ([], {});
          acc1 = fold (\<lambda>f. add_excluded is_excluded (Some f)) (untracked_files r) acc0;
          acc2 = fold (\<lambda>item. add_excluded is_excluded (item_path item))
                   (index_diff_worktree r) acc1
      in if head_is_valid r then
           (case index_diff_HEAD r of
              Inl e \<Rightarrow> Inl e
            | Inr items \<Rightarrow>
                Inr (fst (fold (\<lambda>item. add_excluded is_excluded (item_path item)) items acc2)))
         else Inr (fst acc2))"

section \<open>\<open>GitOps.stage_files\<close> and \<open>GitOps.commit\<close>\<close>

text \<open>\<open>repo.index.add([f])\<close>: the path enters the index.\<close>

definition index_add :: "string \<Rightarrow> repo \<Rightarrow> repo" where
  "index_add f r = r\<lparr>index_added := index_added r @ [f]\<rparr>"

text \<open>
  The loop of \<open>stage_files\<close> over \<open>files\<close>, with \<open>staged\<close>, \<open>excluded\<close> and the repository as
  its state. \<open>path_exists\<close> is \<open>Path(f).exists()\<close>, the file system at the time of the call.
\<close>

fun stage_loop ::
  "(path \<Rightarrow> bool) \<Rightarrow> (string \<Rightarrow> bool) \<Rightarrow> string list \<Rightarrow>
     string list \<times> string list \<times> repo \<Rightarrow> string list \<times> string list \<times> repo"
where
  "stage_loop is_excluded path_exists [] acc = acc"
| "stage_loop is_excluded path_exists (f # fs) (staged, excluded, r) =
     (if is_excluded (Some f) then
        stage_loop is_excluded path_exists fs (staged, excluded @ [f], r)
      else if path_exists f then
        stage_loop is_excluded path_exists fs (staged @ [f], excluded, index_add f r)
      else stage_loop is_excluded path_exists fs (staged, excluded, r))"

definition stage_files ::
  "(path \<Rightarrow> bool) \<Rightarrow> (string \<Rightarrow> bool) \<Rightarrow> string list \<Rightarrow> repo \<Rightarrow>
     string list \<times> string list \<times> repo"
where
  "stage_files is_excluded path_exists files r =
     stage_loop is_excluded path_exists files ([], [], r)"

text \<open>
  \<open>repo.index.commit(message)\<close>: a commit of what the index holds (the staged additions
  and removals) on the branch HEAD names.
\<close>

definition commit :: "string \<Rightarrow> repo \<Rightarrow> repo" where
  "commit message r =
     (case head r of
        Branch b \<Rightarrow>
          r\<lparr>commits := commits r @
                 [\<lparr>commit_branch = b, commit_message = message,
                   commit_paths = index_added r @ index_removed r\<rparr>],
            branches := (if b \<in> set (branches r) then branches r else branches r @ [b]),
            index_added := [], index_removed := []\<rparr>
      | Detached \<Rightarrow>
          r\<lparr>commits := commits r @
                 [\<lparr>commit_branch = [], commit_message = message,
                   commit_paths = index_added r @ index_removed r\<rparr>],
            index_added := [], index_removed := []\<rparr>)"

section \<open>The git commands \<open>isolated_branch\<close> runs\<close>


text \<open>
  \<open>repo.is_dirty(untracked_files=True)\<close>: something is staged (\<open>git diff --cached\<close>, which
  also answers before the first commit), a tracked file differs from the index, or there is
  an untracked file.
\<close>

definition is_dirty :: "repo \<Rightarrow> bool" where
  "is_dirty r =
     (index_diff_head r \<noteq> [] \<or> index_diff_worktree r \<noteq> [] \<or> untracked_files r \<noteq> [])"

text \<open>
  \<open>git stash push --keep-index -m msg\<close>: fails before the first commit; with no change to a
  tracked file it saves nothing and exits with 0; otherwise it pushes an entry and resets
  the working tree to the index.
\<close>

definition stash_push :: "string \<Rightarrow> repo \<Rightarrow> error + repo" where
  "stash_push msg r =
     (if \<not> head_is_valid r then Inl (GitCommandError ''stash push'')
      else if index_diff_worktree r = [] \<and> index_diff_head r = [] then Inr r
      else Inr (r\<lparr>stash := \<lparr>stash_message = msg,
                               stash_diffs = index_diff_head r @ index_diff_worktree r\<rparr> # stash r,
                    index_diff_worktree := []\<rparr>))"

text \<open>\<open>git stash pop\<close>: fails on an empty stash and on a conflict, and then drops nothing.\<close>

definition stash_pop :: "repo \<Rightarrow> error + repo" where
  "stash_pop r =
     (case stash r of
        [] \<Rightarrow> Inl (GitCommandError ''stash pop'')
      | e # es \<Rightarrow>
          if stash_conflict r then Inl (GitCommandError ''stash pop'')
          else Inr (r\<lparr>stash := es,
                        index_diff_worktree := index_diff_worktree r @ stash_diffs e\<rparr>))"

text \<open>
  \<open>git checkout -b name\<close>: fails when the branch exists (as a ref, or as the unborn branch
  HEAD is on); otherwise HEAD moves to the new name, and the ref is created when there is a
  commit for it to point at. Branch names are taken to be well-formed ref names.
\<close>

definition checkout_b :: "string \<Rightarrow> repo \<Rightarrow> error + repo" where
  "checkout_b name r =
     (if name \<in> set (branches r) \<or> head r = Branch name
      then Inl (GitCommandError ''checkout -b'')
      else Inr (r\<lparr>head := Branch name,
                    branches := (if head_is_valid r then branches r @ [name] else branches r)\<rparr>))"

text \<open>\<open>git checkout name\<close>: needs an existing ref that the working tree lets git switch to.\<close>

definition checkout :: "string \<Rightarrow> repo \<Rightarrow> error + repo" where
  "checkout name r =
     (if name \<in> set (branches r) \<and> name \<notin> set (blocked r)
      then Inr (r\<lparr>head := Branch name\<rparr>)
      else Inl (GitCommandError ''checkout''))"

section \<open>\<open>GitOps.isolated_branch\<close>\<close>

text \<open>
  The context manager, used as \<^verbatim>\<open>with gitops.isolated_branch(name): body\<close>. A command of the
  model returns the exception it ends with, if any, and the repository it leaves.

  \<open>enter_stash\<close> is the stash step, which sets \<open>had_stash\<close> once the push has returned;
  \<open>isolated_enter\<close> is the \<open>try\<close> block up to \<open>yield\<close>; its result carries \<open>had_stash\<close>.
  The bare \<open>except:\<close> around the first checkout catches every error and runs the second
  checkout, which is not guarded.
\<close>

definition enter_stash :: "repo \<Rightarrow> error + bool \<times> repo" where
  "enter_stash r =
     (if is_dirty r then
        (case stash_push ''smart-commit temp'' r of
           Inl e \<Rightarrow> Inl e
         | Inr r1 \<Rightarrow> Inr (True, r1))
      else Inr (False, r))"

definition isolated_enter :: "string \<Rightarrow> repo \<Rightarrow> error option \<times> bool \<times> repo" where
  "isolated_enter branch_name r =
     (case enter_stash r of
        Inl e \<Rightarrow> (Some e, False, r)
      | Inr (had_stash, r1) \<Rightarrow>
          (case checkout_b branch_name r1 of
             Inr r2 \<Rightarrow> (None, had_stash, r2)
           | Inl e1 \<Rightarrow>
               (case checkout_b (branch_name @ ''-v2'') r1 of
                  Inr r2 \<Rightarrow> (None, had_stash, r2)
                | Inl e2 \<Rightarrow> (Some e2, had_stash, r1))))"

text \<open>The \<open>finally\<close> block: both commands run under \<^verbatim>\<open>try: ... except: pass\<close>.\<close>

definition isolated_finally :: "string \<Rightarrow> bool \<Rightarrow> repo \<Rightarrow> repo" where
  "isolated_finally original had_stash r =
     (let r1 = (case checkout original r of Inr r' \<Rightarrow> r' | Inl e \<Rightarrow> r)
      in if had_stash then (case stash_pop r1 of Inr r' \<Rightarrow> r' | Inl e \<Rightarrow> r1) else r1)"

text \<open>
  The state in which control reaches \<open>finally\<close>: after a failed entry the body does not
  run; otherwise the body runs and may itself end with an exception.
\<close>

definition isolated_try ::
  "string \<Rightarrow> (repo \<Rightarrow> error option \<times> repo) \<Rightarrow> repo \<Rightarrow> error option \<times> bool \<times> repo"
where
  "isolated_try branch_name body r =
     (case isolated_enter branch_name r of
        (Some e, had_stash, r1) \<Rightarrow> (Some e, had_stash, r1)
      | (None, had_stash, r1) \<Rightarrow> (case body r1 of (x, r2) \<Rightarrow> (x, had_stash, r2)))"

text \<open>The whole scope: the exception of the \<open>try\<close> part, if any, propagates after \<open>finally\<close>.\<close>

definition isolated_branch ::
  "string \<Rightarrow> string \<Rightarrow> (repo \<Rightarrow> error option \<times> repo) \<Rightarrow> repo \<Rightarrow> error option \<times> repo"
where
  "isolated_branch original branch_name body r =
     (case isolated_try branch_name body r of
        (x, had_stash, r1) \<Rightarrow> (x, isolated_finally original had_stash r1))"

section \<open>The change sources in the words of the specification\<close>

text \<open>
  The three sources in their fixed order, each entry with the status its source gives it;
  the staged source is left out when the repository has no commit.
\<close>

definition change_sources :: "repo \<Rightarrow> (path \<times> string) list" where
  "change_sources r =
     map (\<lambda>f. (Some f, ''U'')) (untracked_files r) @
     map (\<lambda>item. (item_path item, unstaged_status item)) (index_diff_worktree r) @
     (if head_is_valid r
      then map (\<lambda>item. (item_path item, staged_status item)) (index_diff_head r) else [])"

fun first_wins :: "('a \<times> 'b) list \<Rightarrow> ('a \<times> 'b) list" where
  "first_wins [] = []"
| "first_wins (x # xs) = x # filter (\<lambda>y. fst y \<noteq> fst x) (first_wins xs)"

definition to_change :: "path \<times> string \<Rightarrow> change" where
  "to_change x = \<lparr>change_file = fst x, change_status = snd x\<rparr>"


definition secret_excluded :: "path \<Rightarrow> bool" where
  "secret_excluded p = (p = Some ''.env'')"

definition sample_repo :: repo where
  "sample_repo =
     \<lparr>head = Branch ''main'', branches = [''main''], commits = [],
      untracked_files = [''.env'', ''normal.py''],
      index_diff_worktree =
        [\<lparr>a_path = Some ''a.py'', b_path = Some ''a.py'', new_file = False, deleted_file = False\<rparr>],
      index_diff_head =
        [\<lparr>a_path = Some ''a.py'', b_path = Some ''a.py'', new_file = True, deleted_file = False\<rparr>,
         \<lparr>a_path = None, b_path = Some ''b.py'', new_file = False, deleted_file = True\<rparr>],
      index_added = [], index_removed = [], stash = [], blocked = [], stash_conflict = False\<rparr>"


text \<open>A clean repository in which both \<open>feat\<close> and \<open>feat-v2\<close> exist.\<close>

definition clash_repo :: repo where
  "clash_repo =
     \<lparr>head = Branch ''main'', branches = [''main'', ''feat'', ''feat-v2''], commits = [],
      untracked_files = [], index_diff_worktree = [],
      index_diff_head = [], index_added = [], index_removed = [], stash = [], blocked = [],
      stash_conflict = False\<rparr>"


definition taken_repo :: repo where
  "taken_repo =
     \<lparr>head = Branch ''main'', branches = [''main'', ''feat''], commits = [],
      untracked_files = [], index_diff_worktree = [],
      index_diff_head = [], index_added = [], index_removed = [], stash = [], blocked = [],
      stash_conflict = False\<rparr>"

text \<open>Scope bodies: one that does nothing, one that edits the stashed file again.\<close>

definition skip_body :: "repo \<Rightarrow> error option \<times> repo" where
  "skip_body r = (None, r)"



section \<open>Parts of the repository whose source is missing\<close>

subsection \<open>Branch and commit orchestration\<close>

text \<open>
  Modelled from the spec: the source of \<open>checkout_or_create_branch\<close> is missing
  (section 4.4 describes it). If a local branch of that name exists, switch to it (\<open>is_new = False\<close>);
  else create it (\<open>is_new = True\<close>); a failure is returned, not raised. The result is
  \<open>(success, is_new, error)\<close> and the repository.
\<close>

definition checkout_or_create_branch ::
  "string \<Rightarrow> repo \<Rightarrow> (bool \<times> bool \<times> error option) \<times> repo"
where
  "checkout_or_create_branch name r =
     (if name \<in> set (branches r) then
        (case checkout name r of
           Inr r' \<Rightarrow> ((True, False, None), r')
         | Inl e \<Rightarrow> ((False, False, Some e), r))
      else
        (case checkout_b name r of
           Inr r' \<Rightarrow> ((True, True, None), r')
         | Inl e \<Rightarrow> ((False, False, Some e), r)))"

text \<open>
  Modelled from the spec: the source of \<open>merge_branch\<close> is missing (section 4.4
  describes it). It
  checks out \<open>target\<close>, merges \<open>source\<close> with a merge commit that carries the paths
  committed on \<open>source\<close>, and deletes \<open>source\<close> when asked to and the merge succeeded.
  Merge conflicts are outside this model of the repository.
\<close>

definition merge_branch ::
  "string \<Rightarrow> string \<Rightarrow> bool \<Rightarrow> repo \<Rightarrow> (bool \<times> error option) \<times> repo"
where
  "merge_branch source target delete_source r =
     (case checkout target r of
        Inl e \<Rightarrow> ((False, Some e), r)
      | Inr r1 \<Rightarrow>
          if source \<notin> set (branches r1) then ((False, Some (GitCommandError ''merge'')), r1)
          else
            let r2 = r1\<lparr>commits := commits r1 @
                          [\<lparr>commit_branch = target,
                            commit_message = ''Merge branch '' @ source,
                            commit_paths =
                              concat (map commit_paths
                                (filter (\<lambda>c. commit_branch c = source) (commits r1)))\<rparr>]\<rparr>
            in ((True, None),
                if delete_source then r2\<lparr>branches := removeAll source (branches r2)\<rparr> else r2))"

text \<open>
  Modelled from the spec: the source of the staging of deletions is missing (section 9
  asks for two distinguishable cases, tracked-but-now-missing and never-existed;
  \<open>test_handles_deleted_files\<close> commits the deletion of a tracked file). A path is a
  tracked file deleted from the working tree when \<open>repo.index.diff(None)\<close> reports it as a
  deleted file: it is in the index and no longer on disk. A path that is neither on disk
  nor reported so never existed for git.
\<close>

definition tracked_deleted :: "repo \<Rightarrow> string \<Rightarrow> bool" where
  "tracked_deleted r f =
     (\<exists>item \<in> set (index_diff_worktree r). deleted_file item \<and> item_path item = Some f)"

text \<open>\<open>repo.index.remove([f])\<close>: the removal of the path is staged.\<close>

definition index_remove :: "string \<Rightarrow> repo \<Rightarrow> repo" where
  "index_remove f r = r\<lparr>index_removed := index_removed r @ [f]\<rparr>"

text \<open>
  Modelled from the spec: the stage-removal path (section 9), the companion of
  \<open>stage_files\<close> for the paths that \<open>stage_files\<close> drops. A path that is not excluded, is
  not on disk and is a tracked file has its removal staged; every other path is left alone.
\<close>

fun stage_removals_loop ::
  "(path \<Rightarrow> bool) \<Rightarrow> (string \<Rightarrow> bool) \<Rightarrow> string list \<Rightarrow>
     string list \<times> repo \<Rightarrow> string list \<times> repo"
where
  "stage_removals_loop is_excluded path_exists [] acc = acc"
| "stage_removals_loop is_excluded path_exists (f # fs) (removed, r) =
     (if \<not> is_excluded (Some f) \<and> \<not> path_exists f \<and> tracked_deleted r f then
        stage_removals_loop is_excluded path_exists fs (removed @ [f], index_remove f r)
      else stage_removals_loop is_excluded path_exists fs (removed, r))"

definition stage_removals ::
  "(path \<Rightarrow> bool) \<Rightarrow> (string \<Rightarrow> bool) \<Rightarrow> string list \<Rightarrow> repo \<Rightarrow> string list \<times> repo"
where
  "stage_removals is_excluded path_exists files r =
     stage_removals_loop is_excluded path_exists files ([], r)"

text \<open>
  Modelled from the spec: the source of \<open>create_branch_and_commit\<close> is missing
  (section 4.4 describes it, \<open>test_gitops.py\<close> exercises it). It filters to the stageable
  files: the files \<open>stage_files\<close> stages and the tracked files deleted from the working
  tree, whose removal is staged. If nothing is stageable it returns \<open>False\<close> and creates
  neither branch nor commit. Otherwise it creates or checks out the branch, commits with the
  message and applies the strategy: \<open>local-merge\<close> merges back into the original branch and
  deletes the feature branch, \<open>merge-request\<close> leaves the branch. In every strategy it goes
  back to the original branch; a git failure on the way gives \<open>False\<close>.
\<close>

definition create_branch_and_commit ::
  "(path \<Rightarrow> bool) \<Rightarrow> (string \<Rightarrow> bool) \<Rightarrow> string \<Rightarrow> string \<Rightarrow> string list \<Rightarrow> string \<Rightarrow>
     string \<Rightarrow> repo \<Rightarrow> bool \<times> repo"
where
  "create_branch_and_commit is_excluded path_exists original name files message strategy r =
     (case stage_files is_excluded path_exists files r of
        (staged, excluded, r1) \<Rightarrow>
          (case stage_removals is_excluded path_exists files r1 of
             (removed, r1') \<Rightarrow>
               if staged = [] \<and> removed = [] then (False, r1')
               else
                 (case checkout_or_create_branch name r1' of
                    ((False, is_new, err), r2) \<Rightarrow> (False, isolated_finally original False r2)
                  | ((True, is_new, err), r2) \<Rightarrow>
                      let r3 = commit message r2
                      in if strategy = ''local-merge'' then
                           (case merge_branch name original True r3 of
                              ((ok, err'), r4) \<Rightarrow> (ok, isolated_finally original False r4))
                         else (True, isolated_finally original False r3))))"

subsection \<open>Group categorization\<close>

text \<open>The issue a task tracker returns, and a commit group with its transient \<open>_issue\<close>.\<close>

record issue =
  issue_id :: string
  issue_summary :: string

record commit_group =
  group_files :: "string list"
  commit_title :: string
  commit_body :: "string option"
  group_name :: "string option"
  issue_key :: "string option"
  issue_title :: "string option"
  issue_description :: "string option"
  resolved_issue :: "issue option"

text \<open>
  Modelled from the spec: the source of \<open>categorize\<close> (\<open>_categorize_groups\<close>) is missing
  (sections 3, 4.8 and 8 describe it, \<open>test_propose.py\<close> exercises it). Groups without files are dropped. A group is a
  matched candidate iff it carries a non-empty \<open>issue_key\<close>. With a task tracker, the key of
  a candidate is resolved through \<open>get_issue\<close>: a resolved group is matched and carries the
  issue; an unresolved one is unmatched with its key cleared. Without a task tracker every
  group is unmatched. The tracker is \<open>get_issue\<close>, or \<open>None\<close> when there is no collaborator.
\<close>

fun categorize_loop ::
  "(string \<Rightarrow> issue option) option \<Rightarrow> commit_group list \<Rightarrow>
     commit_group list \<times> commit_group list \<Rightarrow> commit_group list \<times> commit_group list"
where
  "categorize_loop task_tracker [] acc = acc"
| "categorize_loop task_tracker (g # gs) (matched, unmatched) =
     (if group_files g = [] then categorize_loop task_tracker gs (matched, unmatched)
      else
        (case (issue_key g, task_tracker) of
           (Some (c # cs), Some get_issue) \<Rightarrow>
             (case get_issue (c # cs) of
                Some i \<Rightarrow>
                  categorize_loop task_tracker gs
                    (matched @ [g\<lparr>resolved_issue := Some i\<rparr>], unmatched)
              | None \<Rightarrow>
                  categorize_loop task_tracker gs
                    (matched, unmatched @ [g\<lparr>issue_key := None\<rparr>]))
         | _ \<Rightarrow> categorize_loop task_tracker gs (matched, unmatched @ [g])))"

definition categorize ::
  "commit_group list \<Rightarrow> (string \<Rightarrow> issue option) option \<Rightarrow>
     commit_group list \<times> commit_group list"
where
  "categorize groups task_tracker = categorize_loop task_tracker groups ([], [])"

subsection \<open>Provider registry and client construction\<close>

datatype provider_kind = Cli string | Api string | OtherKind string

record provider =
  kind :: provider_kind
  default_model :: string
  install_hint :: "string option"

datatype llm_error =
    InvalidProvider string
  | UnavailableProvider string "string option"
  | NoProviderFound
  | ParseError string

record llm_config =
  cfg_provider :: string
  cfg_model :: "string option"
  cfg_timeout :: "nat option"

record llm_client =
  provider_name :: string
  model :: string
  timeout :: nat

text \<open>
  Modelled from the spec: the source of \<open>check_provider_available\<close> is missing (section
  4.5 describes it). A \<open>cli\<close> provider is available iff its executable is on the search path; an \<open>api\<close>
  provider with a local daemon iff its CLI helper is; any other kind never. \<open>which\<close> is the
  host's lookup on the executable search path.
\<close>

definition check_provider_available :: "(string \<Rightarrow> bool) \<Rightarrow> string \<Rightarrow> provider \<Rightarrow> bool" where
  "check_provider_available which name p =
     (case kind p of
        Cli cmd \<Rightarrow> which cmd
      | Api helper \<Rightarrow> which helper
      | OtherKind k \<Rightarrow> False)"

text \<open>
  Modelled from the spec: the source of \<open>get_available_providers\<close> is missing (section
  4.5 describes it). It keeps the entries of the catalogue that pass the check, in
  catalogue order. The catalogue is the ordered mapping
  \<open>load_providers\<close> returns.
\<close>

definition get_available_providers ::
  "(string \<Rightarrow> bool) \<Rightarrow> (string \<times> provider) list \<Rightarrow> (string \<times> provider) list"
where
  "get_available_providers which catalogue =
     filter (\<lambda>(name, p). check_provider_available which name p) catalogue"

text \<open>
  Modelled from the spec: the source of \<open>LLMClient\<close> is missing (section 4.6 describes its
  construction, \<open>test_llm.py\<close> exercises it). The provider is the configured name or, for \<open>"auto"\<close>, the
  first available provider in catalogue order; the model is the configured one or the
  provider's default; the timeout is the configured one or 120. Construction fails with the
  no-provider error when auto-detection finds none, with the invalid-provider error for a
  name outside the catalogue, and with the unavailable-provider error (carrying the install
  hint) when the named provider is not available.
\<close>

definition make_client :: "llm_config \<Rightarrow> string \<Rightarrow> provider \<Rightarrow> llm_client" where
  "make_client cfg name p =
     \<lparr>provider_name = name,
      model = (case cfg_model cfg of Some m \<Rightarrow> m | None \<Rightarrow> default_model p),
      timeout = (case cfg_timeout cfg of Some t \<Rightarrow> t | None \<Rightarrow> 120)\<rparr>"

definition LLMClient ::
  "(string \<Rightarrow> bool) \<Rightarrow> (string \<times> provider) list \<Rightarrow> llm_config \<Rightarrow> llm_error + llm_client"
where
  "LLMClient which catalogue cfg =
     (if cfg_provider cfg = ''auto'' then
        (case get_available_providers which catalogue of
           [] \<Rightarrow> Inl NoProviderFound
         | (name, p) # rest \<Rightarrow> Inr (make_client cfg name p))
      else
        (case map_of catalogue (cfg_provider cfg) of
           None \<Rightarrow> Inl (InvalidProvider (cfg_provider cfg))
         | Some p \<Rightarrow>
             if check_provider_available which (cfg_provider cfg) p
             then Inr (make_client cfg (cfg_provider cfg) p)
             else Inl (UnavailableProvider (cfg_provider cfg) (install_hint p))))"

subsection \<open>Response parser\<close>

text \<open>A parsed YAML or JSON value.\<close>

datatype yaml =
    YNull
  | YScalar string
  | YSeq "yaml list"
  | YMap "(string \<times> yaml) list"

text \<open>
  Modelled from the spec: the source of the response parser (\<open>_parse_yaml\<close>,
  \<open>_parse_detailed_result\<close>) is missing (section 4.7 describes it). The three steps that precede the
  structural decision are parameters, since the spec names them without giving their
  patterns and the parser is a library: \<open>extract\<close> takes the content of a fenced block
  labelled \<open>yaml\<close> or \<open>json\<close> (or the whole text), \<open>clean\<close> removes the known artifacts, and
  \<open>load\<close> is the structural parse, \<open>None\<close> when it fails.
\<close>

definition parse_candidate ::
  "(string \<Rightarrow> string) \<Rightarrow> (string \<Rightarrow> string) \<Rightarrow> (string \<Rightarrow> yaml option) \<Rightarrow> string \<Rightarrow> yaml option"
where
  "parse_candidate extract clean load output_text = load (clean (extract output_text))"

text \<open>
  List mode: a mapping with a \<open>groups\<close> key whose value is a sequence gives that sequence;
  a sequence is returned as it is; an empty mapping or sequence, a failed parse and anything
  else is the structured-output parse error.
\<close>

definition parse ::
  "(string \<Rightarrow> string) \<Rightarrow> (string \<Rightarrow> string) \<Rightarrow> (string \<Rightarrow> yaml option) \<Rightarrow> string \<Rightarrow>
     llm_error + yaml list"
where
  "parse extract clean load output_text =
     (case parse_candidate extract clean load output_text of
        None \<Rightarrow> Inl (ParseError ''YAML parse error'')
      | Some (YMap kvs) \<Rightarrow>
          (case map_of kvs ''groups'' of
             Some (YSeq gs) \<Rightarrow> Inr gs
           | _ \<Rightarrow> Inl (ParseError ''YAML parse error''))
      | Some (YSeq xs) \<Rightarrow>
          if xs = [] then Inl (ParseError ''YAML parse error'') else Inr xs
      | Some _ \<Rightarrow> Inl (ParseError ''YAML parse error''))"

text \<open>
  Single-record update mode: the keys of a parsed non-empty object are merged onto a copy of
  the original record; in every other case the original record is returned.
\<close>

definition parse_update ::
  "(string \<Rightarrow> string) \<Rightarrow> (string \<Rightarrow> string) \<Rightarrow> (string \<Rightarrow> yaml option) \<Rightarrow> string \<Rightarrow>
     (string \<rightharpoonup> yaml) \<Rightarrow> (string \<rightharpoonup> yaml)"
where
  "parse_update extract clean load output_text original_record =
     (case parse_candidate extract clean load output_text of
        Some (YMap kvs) \<Rightarrow>
          if kvs = [] then original_record
          else fold (\<lambda>(k, v) m. m(k \<mapsto> v)) kvs original_record
      | _ \<Rightarrow> original_record)"

text \<open>
  A text has no parseable structured content when the structural parse of its candidate
  fails or gives neither a non-empty mapping nor a non-empty sequence (free prose parses
  to a scalar).
\<close>

definition no_structured_content ::
  "(string \<Rightarrow> string) \<Rightarrow> (string \<Rightarrow> string) \<Rightarrow> (string \<Rightarrow> yaml option) \<Rightarrow> string \<Rightarrow> bool"
where
  "no_structured_content extract clean load output_text =
     (case parse_candidate extract clean load output_text of
        None \<Rightarrow> True
      | Some YNull \<Rightarrow> True
      | Some (YScalar s) \<Rightarrow> True
      | Some (YSeq xs) \<Rightarrow> xs = []
      | Some (YMap kvs) \<Rightarrow> kvs = [])"

subsection \<open>Sample inputs\<close>

text \<open>The catalogue, host and configuration of the auto-detection tests.\<close>

definition test_catalogue :: "(string \<times> provider) list" where
  "test_catalogue =
     [(''claude-code'', \<lparr>kind = Cli ''claude'', default_model = ''claude'', install_hint = None\<rparr>),
      (''ollama'', \<lparr>kind = Api ''ollama'', default_model = ''llama2'', install_hint = None\<rparr>)]"

definition only_ollama :: "string \<Rightarrow> bool" where
  "only_ollama cmd = (cmd = ''ollama'')"

definition nothing_installed :: "string \<Rightarrow> bool" where
  "nothing_installed cmd = False"

definition auto_config :: llm_config where
  "auto_config = \<lparr>cfg_provider = ''auto'', cfg_model = None, cfg_timeout = None\<rparr>"

text \<open>A structural parse under which the prose of the tests is a plain scalar.\<close>

definition prose_load :: "string \<Rightarrow> yaml option" where
  "prose_load s = (if s = ''random prose with no structure'' then Some (YScalar s) else None)"

text \<open>
  The repository of \<open>test_handles_deleted_files\<close>: \<open>to_delete.py\<close> was committed and then
  unlinked, so the index still holds it and the working tree does not.
\<close>

definition deleted_repo :: repo where
  "deleted_repo =
     \<lparr>head = Branch ''main'', branches = [''main''], commits = [],
      untracked_files = [],
      index_diff_worktree =
        [\<lparr>a_path = Some ''to_delete.py'', b_path = Some ''to_delete.py'',
          new_file = False, deleted_file = True\<rparr>],
      index_diff_head = [], index_added = [], index_removed = [], stash = [], blocked = [],
      stash_conflict = False\<rparr>"

section \<open>Properties of the change enumeration\<close>

lemma add_change_seen:
  "f \<in> seen \<Longrightarrow> add_change ex inc f s (cs, seen) = (cs, seen)"
  by (simp add: add_change_def)

lemma add_change_new:
  "f \<notin> seen \<Longrightarrow>
   add_change ex inc f s (cs, seen) =
     (cs @ map to_change (filter (\<lambda>x. inc \<or> \<not> ex (fst x)) [(f, s)]), insert f seen)"
  by (simp add: add_change_def to_change_def)

lemma filter_seen_drop:
  "a \<in> seen \<Longrightarrow>
   filter (\<lambda>y. fst y \<notin> seen) (filter (\<lambda>y. fst y \<noteq> a) xs) = filter (\<lambda>y. fst y \<notin> seen) xs"
  by (induction xs) auto

lemma filter_seen_insert:
  "filter (\<lambda>y. fst y \<notin> insert a seen) xs =
   filter (\<lambda>y. fst y \<notin> seen) (filter (\<lambda>y. fst y \<noteq> a) xs)"
  by (induction xs) auto

lemma fold_add_change:
  "fold (\<lambda>x. add_change ex inc (fst x) (snd x)) xs (cs, seen) =
     (cs @ map to_change (filter (\<lambda>x. inc \<or> \<not> ex (fst x))
                            (filter (\<lambda>y. fst y \<notin> seen) (first_wins xs))),
      seen \<union> fst ` set xs)"
proof (induction xs arbitrary: cs seen)
  case Nil
  show ?case by simp
next
  case (Cons x xs)
  show ?case
  proof (cases "fst x \<in> seen")
    case True
    have "fold (\<lambda>x. add_change ex inc (fst x) (snd x)) (x # xs) (cs, seen) =
          fold (\<lambda>x. add_change ex inc (fst x) (snd x)) xs (cs, seen)"
      using True by (simp add: add_change_seen)
    also have "\<dots> = (cs @ map to_change (filter (\<lambda>x. inc \<or> \<not> ex (fst x))
                            (filter (\<lambda>y. fst y \<notin> seen) (first_wins xs))),
                      seen \<union> fst ` set xs)"
      by (rule Cons.IH)
    also have "filter (\<lambda>y. fst y \<notin> seen) (first_wins xs) =
               filter (\<lambda>y. fst y \<notin> seen) (first_wins (x # xs))"
      using True filter_seen_drop [of "fst x" seen "first_wins xs"] by simp
    also have "seen \<union> fst ` set xs = seen \<union> fst ` set (x # xs)"
      using True by auto
    finally show ?thesis .
  next
    case False
    let ?cs = "cs @ map to_change (filter (\<lambda>x. inc \<or> \<not> ex (fst x)) [x])"
    have "fold (\<lambda>x. add_change ex inc (fst x) (snd x)) (x # xs) (cs, seen) =
          fold (\<lambda>x. add_change ex inc (fst x) (snd x)) xs (?cs, insert (fst x) seen)"
      using False add_change_new [of "fst x" seen ex inc "snd x" cs] by simp
    also have "\<dots> = (?cs @ map to_change (filter (\<lambda>x. inc \<or> \<not> ex (fst x))
                            (filter (\<lambda>y. fst y \<notin> insert (fst x) seen) (first_wins xs))),
                      insert (fst x) seen \<union> fst ` set xs)"
      by (rule Cons.IH)
    also have "filter (\<lambda>y. fst y \<notin> insert (fst x) seen) (first_wins xs) =
               filter (\<lambda>y. fst y \<notin> seen) (filter (\<lambda>y. fst y \<noteq> fst x) (first_wins xs))"
      by (rule filter_seen_insert)
    also have "?cs @ map to_change (filter (\<lambda>x. inc \<or> \<not> ex (fst x))
                 (filter (\<lambda>y. fst y \<notin> seen) (filter (\<lambda>y. fst y \<noteq> fst x) (first_wins xs)))) =
               cs @ map to_change (filter (\<lambda>x. inc \<or> \<not> ex (fst x))
                 (filter (\<lambda>y. fst y \<notin> seen) (first_wins (x # xs))))"
      using False by simp
    also have "insert (fst x) seen \<union> fst ` set xs = seen \<union> fst ` set (x # xs)"
      by auto
    finally show ?thesis .
  qed
qed

lemma get_changes_refines:
  "get_changes ex r inc =
     Inr (map to_change (filter (\<lambda>x. inc \<or> \<not> ex (fst x)) (first_wins (change_sources r))))"
proof -
  let ?step = "\<lambda>x. add_change ex inc (fst x) (snd x)"
  have u: "fold (\<lambda>f. add_change ex inc (Some f) ''U'') xs acc =
           fold ?step (map (\<lambda>f. (Some f, ''U'')) xs) acc" for xs acc
    by (simp add: fold_map comp_def)
  have w: "fold (\<lambda>item. add_change ex inc (item_path item) (unstaged_status item)) xs acc =
           fold ?step (map (\<lambda>item. (item_path item, unstaged_status item)) xs) acc" for xs acc
    by (simp add: fold_map comp_def)
  have h: "fold (\<lambda>item. add_change ex inc (item_path item) (staged_status item)) xs acc =
           fold ?step (map (\<lambda>item. (item_path item, staged_status item)) xs) acc" for xs acc
    by (simp add: fold_map comp_def)
  have "get_changes ex r inc = Inr (fst (fold ?step (change_sources r) ([], {})))"
    by (simp add: get_changes_def index_diff_HEAD_def change_sources_def u w h Let_def)
  then show ?thesis
    by (simp add: fold_add_change)
qed


lemma fst_set_first_wins: "fst ` set (first_wins xs) = fst ` set xs"
proof (induction xs)
  case Nil
  show ?case by simp
next
  case (Cons x xs)
  have "fst ` set (filter (\<lambda>y. fst y \<noteq> fst x) (first_wins xs)) =
        fst ` set (first_wins xs) - {fst x}"
    by auto
  then have "fst ` set (first_wins (x # xs)) = insert (fst x) (fst ` set xs - {fst x})"
    using Cons.IH by simp
  then show ?case by auto
qed

lemma fst_set_filter:
  "fst ` set (filter (\<lambda>x. P (fst x)) xs) = {f \<in> fst ` set xs. P f}"
  by (induction xs) auto

lemma distinct_first_wins: "distinct (map fst (first_wins xs))"
proof (induction xs)
  case Nil
  show ?case by simp
next
  case (Cons x xs)
  have "distinct (map fst (filter (\<lambda>y. fst y \<noteq> fst x) (first_wins xs)))"
    using Cons.IH by (rule distinct_map_filter)
  then show ?case by auto
qed

lemma map_of_filter_neq:
  "k \<noteq> a \<Longrightarrow> map_of (filter (\<lambda>y. fst y \<noteq> a) xs) k = map_of xs k"
  by (induction xs) auto

lemma map_of_first_wins: "map_of (first_wins xs) k = map_of xs k"
proof (induction xs)
  case Nil
  show ?case by simp
next
  case (Cons x xs)
  show ?case
  proof (cases "k = fst x")
    case True
    then show ?thesis by (cases x) simp
  next
    case False
    then show ?thesis
      using Cons.IH by (cases x) (simp add: map_of_filter_neq)
  qed
qed

lemma changes_paths:
  "map change_file (map to_change xs) = map fst xs"
  by (simp add: to_change_def comp_def)

lemma fold_add_excluded:
  "seen = set excl \<Longrightarrow> distinct excl \<Longrightarrow>
   fold (add_excluded ex) fs (excl, seen) = (excl', seen') \<Longrightarrow>
   seen' = set excl' \<and> distinct excl' \<and> set excl' = set excl \<union> {f \<in> set fs. ex f}"
proof (induction fs arbitrary: excl seen)
  case Nil
  then show ?case by auto
next
  case (Cons f fs)
  show ?case
  proof (cases "f \<notin> seen \<and> ex f")
    case True
    then have step: "add_excluded ex f (excl, seen) = (excl @ [f], insert f seen)"
      by (simp add: add_excluded_def)
    have "seen' = set excl' \<and> distinct excl' \<and>
          set excl' = set (excl @ [f]) \<union> {f \<in> set fs. ex f}"
    proof (rule Cons.IH)
      show "insert f seen = set (excl @ [f])" using Cons.prems(1) by simp
      show "distinct (excl @ [f])" using Cons.prems(1,2) True by simp
      show "fold (add_excluded ex) fs (excl @ [f], insert f seen) = (excl', seen')"
        using Cons.prems(3) step by simp
    qed
    then show ?thesis using True by auto
  next
    case False
    then have step: "add_excluded ex f (excl, seen) = (excl, seen)"
      by (auto simp: add_excluded_def)
    have "seen' = set excl' \<and> distinct excl' \<and>
          set excl' = set excl \<union> {f \<in> set fs. ex f}"
    proof (rule Cons.IH)
      show "seen = set excl" by (rule Cons.prems(1))
      show "distinct excl" by (rule Cons.prems(2))
      show "fold (add_excluded ex) fs (excl, seen) = (excl', seen')"
        using Cons.prems(3) step by simp
    qed
    then show ?thesis using False Cons.prems(1) by auto
  qed
qed

lemma get_excluded_changes_fold:
  "get_excluded_changes ex r =
     Inr (fst (fold (add_excluded ex) (map fst (change_sources r)) ([], {})))"
  by (simp add: get_excluded_changes_def index_diff_HEAD_def change_sources_def
        fold_map comp_def Let_def)

lemma get_excluded_changes_set:
  "\<exists>excl. get_excluded_changes ex r = Inr excl \<and> distinct excl \<and>
          set excl = {f \<in> fst ` set (change_sources r). ex f}"
proof -
  obtain excl seen where
    f: "fold (add_excluded ex) (map fst (change_sources r)) ([], {}) = (excl, seen)"
    by (cases "fold (add_excluded ex) (map fst (change_sources r)) ([], {})")
  have "seen = set excl \<and> distinct excl \<and>
        set excl = set [] \<union> {f \<in> set (map fst (change_sources r)). ex f}"
    by (rule fold_add_excluded [OF _ _ f]) simp_all
  then show ?thesis
    by (simp add: get_excluded_changes_fold f)
qed

lemma stage_loop_eq:
  "stage_loop ex pe fs (st, exc, r) =
     (st @ filter (\<lambda>f. \<not> ex (Some f) \<and> pe f) fs,
      exc @ filter (\<lambda>f. ex (Some f)) fs,
      r\<lparr>index_added := index_added r @ filter (\<lambda>f. \<not> ex (Some f) \<and> pe f) fs\<rparr>)"
  by (induction fs arbitrary: st exc r) (simp_all add: index_add_def)

lemma stage_files_eq:
  "stage_files ex pe files r =
     (filter (\<lambda>f. \<not> ex (Some f) \<and> pe f) files,
      filter (\<lambda>f. ex (Some f)) files,
      r\<lparr>index_added := index_added r @ filter (\<lambda>f. \<not> ex (Some f) \<and> pe f) files\<rparr>)"
  by (simp add: stage_files_def stage_loop_eq)



section \<open>Claims about the change enumeration\<close>

text \<open>
  Claim C5. \<open>get_changes\<close> unions its three sources in the fixed order untracked files,
  unstaged diffs, staged diffs: its result is the list of sources with, for every path, the
  first entry only (minus the excluded paths unless \<open>include_excluded\<close>). No path occurs
  twice in the result, and the status of each path is the one its first entry in the sources
  gives. The call never raises; in a repository with zero commits, where
  \<open>index.diff("HEAD")\<close> would raise, the staged source is not read at all.
\<close>

theorem get_changes_first_wins:
  "\<exists>cs. get_changes ex r inc = Inr cs \<and>
     cs = map to_change (filter (\<lambda>x. inc \<or> \<not> ex (fst x)) (first_wins (change_sources r))) \<and>
     distinct (map change_file cs) \<and>
     (\<forall>c \<in> set cs. map_of (change_sources r) (change_file c) = Some (change_status c)) \<and>
     (\<not> head_is_valid r \<longrightarrow>
        index_diff_HEAD r = Inl (BadName ''HEAD'') \<and>
        change_sources r =
          map (\<lambda>f. (Some f, ''U'')) (untracked_files r) @
          map (\<lambda>item. (item_path item, unstaged_status item)) (index_diff_worktree r))"
proof -
  let ?fw = "first_wins (change_sources r)"
  let ?cs = "map to_change (filter (\<lambda>x. inc \<or> \<not> ex (fst x)) ?fw)"
  have d: "distinct (map change_file ?cs)"
    unfolding changes_paths using distinct_first_wins by (rule distinct_map_filter)
  have m: "map_of (change_sources r) (change_file c) = Some (change_status c)"
    if "c \<in> set ?cs" for c
  proof -
    from that obtain x where x: "x \<in> set ?fw" and c: "c = to_change x" by auto
    have "map_of ?fw (fst x) = Some (snd x)"
      using map_of_is_SomeI [OF distinct_first_wins, of "fst x" "snd x" "change_sources r"] x
      by simp
    then show ?thesis
      by (simp add: c to_change_def map_of_first_wins)
  qed
  have z: "index_diff_HEAD r = Inl (BadName ''HEAD'')" if "\<not> head_is_valid r"
    using that by (simp add: index_diff_HEAD_def)
  show ?thesis
    using d m z get_changes_refines [of ex r inc] by (simp add: change_sources_def)
qed

theorem get_changes_first_wins_witness:
  "get_changes secret_excluded sample_repo False =
     Inr [\<lparr>change_file = Some ''normal.py'', change_status = ''U''\<rparr>,
          \<lparr>change_file = Some ''a.py'', change_status = ''M''\<rparr>,
          \<lparr>change_file = Some ''b.py'', change_status = ''D''\<rparr>] \<and>
   \<not> head_is_valid (sample_repo\<lparr>branches := []\<rparr>) \<and>
   get_changes secret_excluded (sample_repo\<lparr>branches := []\<rparr>) False =
     Inr [\<lparr>change_file = Some ''normal.py'', change_status = ''U''\<rparr>,
          \<lparr>change_file = Some ''a.py'', change_status = ''M''\<rparr>]"
  using get_changes_first_wins [of secret_excluded sample_repo False]
    get_changes_first_wins [of secret_excluded "sample_repo\<lparr>branches := []\<rparr>" False]
  by (simp add: change_sources_def sample_repo_def secret_excluded_def head_is_valid_def
        item_path_def py_or_def unstaged_status_def staged_status_def to_change_def)


text \<open>
  Claim C9. In every repository state the paths of \<open>get_changes(include_excluded=True)\<close>
  are the disjoint union of the paths of \<open>get_changes()\<close> and of
  \<open>get_excluded_changes()\<close>: the latter two share no path, each of the three lists holds
  a path at most once, and together they cover exactly the paths the sources report.
\<close>

theorem get_changes_disjoint_union:
  "\<exists>every dflt excl.
     get_changes ex r True = Inr every \<and>
     get_changes ex r False = Inr dflt \<and>
     get_excluded_changes ex r = Inr excl \<and>
     set (map change_file every) = set (map change_file dflt) \<union> set excl \<and>
     set (map change_file dflt) \<inter> set excl = {} \<and>
     distinct (map change_file every) \<and> distinct (map change_file dflt) \<and> distinct excl \<and>
     set (map change_file every) = fst ` set (change_sources r)"
proof -
  let ?fw = "first_wins (change_sources r)"
  obtain excl where e: "get_excluded_changes ex r = Inr excl" and de: "distinct excl"
    and se: "set excl = {f \<in> fst ` set (change_sources r). ex f}"
    using get_excluded_changes_set [of ex r] by blast
  have all: "get_changes ex r True = Inr (map to_change ?fw)"
    by (simp add: get_changes_refines)
  have dflt: "get_changes ex r False =
              Inr (map to_change (filter (\<lambda>x. \<not> ex (fst x)) ?fw))"
    by (simp add: get_changes_refines)
  have sa: "set (map change_file (map to_change ?fw)) = fst ` set (change_sources r)"
    unfolding changes_paths by (simp add: fst_set_first_wins)
  have sd: "set (map change_file (map to_change (filter (\<lambda>x. \<not> ex (fst x)) ?fw))) =
            {f \<in> fst ` set (change_sources r). \<not> ex f}"
    unfolding changes_paths
    using fst_set_filter [of "\<lambda>f. \<not> ex f" "first_wins (change_sources r)"]
    by (simp only: set_map fst_set_first_wins)
  have da: "distinct (map change_file (map to_change ?fw))"
    unfolding changes_paths by (rule distinct_first_wins)
  have dd: "distinct (map change_file (map to_change (filter (\<lambda>x. \<not> ex (fst x)) ?fw)))"
    unfolding changes_paths using distinct_first_wins by (rule distinct_map_filter)
  have u: "fst ` set (change_sources r) =
           {f \<in> fst ` set (change_sources r). \<not> ex f} \<union> set excl"
    using se by auto
  have i: "{f \<in> fst ` set (change_sources r). \<not> ex f} \<inter> set excl = {}"
    using se by auto
  show ?thesis
  proof (intro exI conjI)
    show "get_changes ex r True = Inr (map to_change ?fw)" by (rule all)
    show "get_changes ex r False = Inr (map to_change (filter (\<lambda>x. \<not> ex (fst x)) ?fw))"
      by (rule dflt)
    show "get_excluded_changes ex r = Inr excl" by (rule e)
    show "set (map change_file (map to_change ?fw)) =
          set (map change_file (map to_change (filter (\<lambda>x. \<not> ex (fst x)) ?fw))) \<union> set excl"
      unfolding sa sd by (rule u)
    show "set (map change_file (map to_change (filter (\<lambda>x. \<not> ex (fst x)) ?fw))) \<inter> set excl = {}"
      unfolding sd by (rule i)
    show "distinct (map change_file (map to_change ?fw))" by (rule da)
    show "distinct (map change_file (map to_change (filter (\<lambda>x. \<not> ex (fst x)) ?fw)))"
      by (rule dd)
    show "distinct excl" by (rule de)
    show "set (map change_file (map to_change ?fw)) = fst ` set (change_sources r)" by (rule sa)
  qed
qed

theorem get_changes_disjoint_union_witness:
  "get_changes secret_excluded sample_repo True =
     Inr [\<lparr>change_file = Some ''.env'', change_status = ''U''\<rparr>,
          \<lparr>change_file = Some ''normal.py'', change_status = ''U''\<rparr>,
          \<lparr>change_file = Some ''a.py'', change_status = ''M''\<rparr>,
          \<lparr>change_file = Some ''b.py'', change_status = ''D''\<rparr>] \<and>
   get_excluded_changes secret_excluded sample_repo = Inr [Some ''.env''] \<and>
   (\<exists>dflt. get_changes secret_excluded sample_repo False = Inr dflt \<and>
      set (map change_file dflt) = {Some ''normal.py'', Some ''a.py'', Some ''b.py''})"
proof -
  have a: "get_changes secret_excluded sample_repo True =
     Inr [\<lparr>change_file = Some ''.env'', change_status = ''U''\<rparr>,
          \<lparr>change_file = Some ''normal.py'', change_status = ''U''\<rparr>,
          \<lparr>change_file = Some ''a.py'', change_status = ''M''\<rparr>,
          \<lparr>change_file = Some ''b.py'', change_status = ''D''\<rparr>]"
    by (simp add: get_changes_def index_diff_HEAD_def add_change_def sample_repo_def
          secret_excluded_def head_is_valid_def item_path_def py_or_def unstaged_status_def
          staged_status_def)
  have b: "get_excluded_changes secret_excluded sample_repo = Inr [Some ''.env'']"
    by (simp add: get_excluded_changes_def index_diff_HEAD_def add_excluded_def
          sample_repo_def secret_excluded_def head_is_valid_def item_path_def py_or_def)
  have c: "get_changes secret_excluded sample_repo False =
     Inr [\<lparr>change_file = Some ''normal.py'', change_status = ''U''\<rparr>,
          \<lparr>change_file = Some ''a.py'', change_status = ''M''\<rparr>,
          \<lparr>change_file = Some ''b.py'', change_status = ''D''\<rparr>]"
    by (simp add: get_changes_def index_diff_HEAD_def add_change_def sample_repo_def
          secret_excluded_def head_is_valid_def item_path_def py_or_def unstaged_status_def
          staged_status_def)
  from get_changes_disjoint_union [of secret_excluded sample_repo]
  have "\<exists>dflt. get_changes secret_excluded sample_repo False = Inr dflt" by blast
  with a b c show ?thesis by simp
qed

section \<open>Claims about the exclusion of sensitive paths\<close>

text \<open>
  Claim C1. For every path \<open>p\<close> on which the sensitivity filter answers true:
  \<open>get_changes()\<close> with default arguments does not list \<open>p\<close>; \<open>stage_files(files)\<close> does
  not stage \<open>p\<close> (it is not in the returned staged list, and the index receives exactly the
  staged list) and returns \<open>p\<close> in its excluded list when \<open>p\<close> is among \<open>files\<close>; and
  \<open>get_changes(include_excluded=True)\<close> lists \<open>p\<close> when \<open>p\<close> is a changed path, that is,
  one the three sources report.
\<close>

theorem excluded_path_never_listed_nor_staged:
  "ex (Some p) \<Longrightarrow>
   (\<exists>cs. get_changes ex r False = Inr cs \<and> Some p \<notin> set (map change_file cs)) \<and>
   (\<exists>staged excluded r'.
      stage_files ex pe files r = (staged, excluded, r') \<and>
      p \<notin> set staged \<and>
      index_added r' = index_added r @ staged \<and>
      (p \<in> set files \<longrightarrow> p \<in> set excluded)) \<and>
   (Some p \<in> fst ` set (change_sources r) \<longrightarrow>
      (\<exists>cs. get_changes ex r True = Inr cs \<and> Some p \<in> set (map change_file cs)))"
proof (intro conjI)
  assume p: "ex (Some p)"
  let ?fw = "first_wins (change_sources r)"
  have "get_changes ex r False = Inr (map to_change (filter (\<lambda>x. \<not> ex (fst x)) ?fw))"
    by (simp add: get_changes_refines)
  moreover have "Some p \<notin> set (map change_file (map to_change (filter (\<lambda>x. \<not> ex (fst x)) ?fw)))"
    unfolding changes_paths
    using fst_set_filter [of "\<lambda>f. \<not> ex f" ?fw] p by (simp only: set_map) simp
  ultimately show "\<exists>cs. get_changes ex r False = Inr cs \<and> Some p \<notin> set (map change_file cs)"
    by blast
next
  assume p: "ex (Some p)"
  let ?staged = "filter (\<lambda>f. \<not> ex (Some f) \<and> pe f) files"
  let ?excluded = "filter (\<lambda>f. ex (Some f)) files"
  let ?r = "r\<lparr>index_added := index_added r @ ?staged\<rparr>"
  have "stage_files ex pe files r = (?staged, ?excluded, ?r)"
    by (rule stage_files_eq)
  moreover have "p \<notin> set ?staged" using p by simp
  moreover have "index_added ?r = index_added r @ ?staged" by simp
  moreover have "p \<in> set files \<longrightarrow> p \<in> set ?excluded" using p by simp
  ultimately show "\<exists>staged excluded r'.
      stage_files ex pe files r = (staged, excluded, r') \<and>
      p \<notin> set staged \<and>
      index_added r' = index_added r @ staged \<and>
      (p \<in> set files \<longrightarrow> p \<in> set excluded)"
    by blast
next
  let ?fw = "first_wins (change_sources r)"
  show "Some p \<in> fst ` set (change_sources r) \<longrightarrow>
      (\<exists>cs. get_changes ex r True = Inr cs \<and> Some p \<in> set (map change_file cs))"
  proof
    assume c: "Some p \<in> fst ` set (change_sources r)"
    have "get_changes ex r True = Inr (map to_change ?fw)"
      by (simp add: get_changes_refines)
    moreover have "Some p \<in> set (map change_file (map to_change ?fw))"
      unfolding changes_paths using c by (simp only: set_map fst_set_first_wins)
    ultimately show "\<exists>cs. get_changes ex r True = Inr cs \<and> Some p \<in> set (map change_file cs)"
      by blast
  qed
qed

theorem excluded_path_never_listed_nor_staged_witness:
  "secret_excluded (Some ''.env'') \<and>
   Some ''.env'' \<in> fst ` set (change_sources sample_repo) \<and>
   (\<exists>cs. get_changes secret_excluded sample_repo False = Inr cs \<and>
      Some ''.env'' \<notin> set (map change_file cs)) \<and>
   (\<exists>cs. get_changes secret_excluded sample_repo True = Inr cs \<and>
      Some ''.env'' \<in> set (map change_file cs)) \<and>
   fst (stage_files secret_excluded (\<lambda>f. True) [''normal.py'', ''.env''] sample_repo) =
     [''normal.py''] \<and>
   fst (snd (stage_files secret_excluded (\<lambda>f. True) [''normal.py'', ''.env''] sample_repo)) =
     [''.env'']"
proof -
  have h: "secret_excluded (Some ''.env'')"
    by (simp add: secret_excluded_def)
  have c: "Some ''.env'' \<in> fst ` set (change_sources sample_repo)"
    by (simp add: change_sources_def sample_repo_def)
  have s: "stage_files secret_excluded (\<lambda>f. True) [''normal.py'', ''.env''] sample_repo =
           ([''normal.py''], [''.env''], index_add ''normal.py'' sample_repo)"
    by (simp add: stage_files_def secret_excluded_def)
  show ?thesis
    using h c s
      excluded_path_never_listed_nor_staged
        [where ex = secret_excluded and p = "''.env''" and r = sample_repo
           and pe = "\<lambda>f. True" and files = "[''normal.py'', ''.env'']"]
    by simp
qed

text \<open>
  Claim C7. A path given to \<open>stage_files\<close> that is not excluded and does not exist on disk
  is returned in neither list, and the index is not touched for it: the repository after the
  call differs from the one before only in the index entries of the staged list, which does
  not hold the path. A tracked file deleted from the working tree is such a path.
\<close>

theorem stage_files_drops_missing_path:
  "p \<in> set files \<Longrightarrow> \<not> ex (Some p) \<Longrightarrow> \<not> pe p \<Longrightarrow>
   (\<exists>staged excluded r'.
      stage_files ex pe files r = (staged, excluded, r') \<and>
      p \<notin> set staged \<and> p \<notin> set excluded \<and>
      r' = r\<lparr>index_added := index_added r @ staged\<rparr>)"
proof -
  assume p: "\<not> ex (Some p)" "\<not> pe p"
  let ?staged = "filter (\<lambda>f. \<not> ex (Some f) \<and> pe f) files"
  let ?excluded = "filter (\<lambda>f. ex (Some f)) files"
  have "stage_files ex pe files r =
          (?staged, ?excluded, r\<lparr>index_added := index_added r @ ?staged\<rparr>)"
    by (rule stage_files_eq)
  moreover have "p \<notin> set ?staged" using p by simp
  moreover have "p \<notin> set ?excluded" using p by simp
  ultimately show ?thesis by blast
qed

theorem stage_files_drops_missing_path_witness:
  "''gone.py'' \<in> set [''gone.py'', ''normal.py''] \<and>
   \<not> secret_excluded (Some ''gone.py'') \<and>
   \<not> (\<lambda>f. f = ''normal.py'') ''gone.py'' \<and>
   (\<exists>staged excluded r'.
      stage_files secret_excluded (\<lambda>f. f = ''normal.py'') [''gone.py'', ''normal.py'']
        sample_repo = (staged, excluded, r') \<and>
      ''gone.py'' \<notin> set staged \<and> ''gone.py'' \<notin> set excluded \<and>
      r' = sample_repo\<lparr>index_added := index_added sample_repo @ staged\<rparr>) \<and>
   stage_files secret_excluded (\<lambda>f. f = ''normal.py'') [''gone.py'', ''normal.py''] sample_repo =
     ([''normal.py''], [], index_add ''normal.py'' sample_repo)"
proof -
  have h1: "''gone.py'' \<in> set [''gone.py'', ''normal.py'']" by simp
  have h2: "\<not> secret_excluded (Some ''gone.py'')" by (simp add: secret_excluded_def)
  have h3: "\<not> (\<lambda>f. f = ''normal.py'') ''gone.py''" by simp
  have e: "\<exists>staged excluded r'.
      stage_files secret_excluded (\<lambda>f. f = ''normal.py'') [''gone.py'', ''normal.py'']
        sample_repo = (staged, excluded, r') \<and>
      ''gone.py'' \<notin> set staged \<and> ''gone.py'' \<notin> set excluded \<and>
      r' = sample_repo\<lparr>index_added := index_added sample_repo @ staged\<rparr>"
    using h1 h2 h3
    by (rule stage_files_drops_missing_path
        [where ex = secret_excluded and p = "''gone.py''" and r = sample_repo
           and pe = "\<lambda>f. f = ''normal.py''" and files = "[''gone.py'', ''normal.py'']"])
  have s: "stage_files secret_excluded (\<lambda>f. f = ''normal.py'') [''gone.py'', ''normal.py'']
             sample_repo =
           ([''normal.py''], [], index_add ''normal.py'' sample_repo)"
    by (simp add: stage_files_def secret_excluded_def)
  show ?thesis
    by (intro conjI h1 h2 h3 e s)
qed

section \<open>Claims about the isolated branch scope\<close>









text \<open>
  Claim C10, as amended. When the checkout that creates the requested branch fails, the
  scope does not switch to the existing branch but tries to create the name with \<open>-v2\<close>
  appended. If that second checkout succeeds, no error is raised, HEAD is on the \<open>-v2\<close>
  branch and the body runs there. If it fails too (for example because that name is taken
  as well), the body does not run and the error of the second checkout is raised to the
  caller once the \<open>finally\<close> block has run.
\<close>

theorem isolated_branch_falls_back_to_v2:
  "enter_stash r = Inr (hs, r1) \<Longrightarrow> checkout_b name r1 = Inl e \<Longrightarrow>
   (\<forall>r2. checkout_b (name @ ''-v2'') r1 = Inr r2 \<longrightarrow>
      isolated_enter name r = (None, hs, r2) \<and>
      head r2 = Branch (name @ ''-v2'') \<and> head r2 \<noteq> Branch name \<and>
      (head_is_valid r1 \<longrightarrow> name @ ''-v2'' \<in> set (branches r2)) \<and>
      isolated_try name body r = (fst (body r2), hs, snd (body r2))) \<and>
   (\<forall>e2. checkout_b (name @ ''-v2'') r1 = Inl e2 \<longrightarrow>
      isolated_enter name r = (Some e2, hs, r1) \<and>
      isolated_branch orig name body r = (Some e2, isolated_finally orig hs r1))"
proof (intro conjI allI impI)
  fix r2
  assume s: "enter_stash r = Inr (hs, r1)" and c1: "checkout_b name r1 = Inl e"
    and c2: "checkout_b (name @ ''-v2'') r1 = Inr r2"
  show en: "isolated_enter name r = (None, hs, r2)"
    by (simp add: isolated_enter_def s c1 c2)
  show h: "head r2 = Branch (name @ ''-v2'')"
    using c2 by (auto simp: checkout_b_def split: if_splits)
  show "head r2 \<noteq> Branch name"
    by (simp add: h)
  show "name @ ''-v2'' \<in> set (branches r2)" if "head_is_valid r1"
    using c2 that by (auto simp: checkout_b_def split: if_splits)
  show "isolated_try name body r = (fst (body r2), hs, snd (body r2))"
    by (simp add: isolated_try_def en split_beta)
next
  fix e2
  assume s: "enter_stash r = Inr (hs, r1)" and c1: "checkout_b name r1 = Inl e"
    and c2: "checkout_b (name @ ''-v2'') r1 = Inl e2"
  show en: "isolated_enter name r = (Some e2, hs, r1)"
    by (simp add: isolated_enter_def s c1 c2)
  show "isolated_branch orig name body r = (Some e2, isolated_finally orig hs r1)"
    by (simp add: isolated_branch_def isolated_try_def en)
qed

theorem isolated_branch_falls_back_to_v2_witness:
  "enter_stash taken_repo = Inr (False, taken_repo) \<and>
   checkout_b ''feat'' taken_repo = Inl (GitCommandError ''checkout -b'') \<and>
   checkout_b ''feat-v2'' taken_repo =
     Inr (taken_repo\<lparr>head := Branch ''feat-v2'', branches := [''main'', ''feat'', ''feat-v2'']\<rparr>) \<and>
   isolated_enter ''feat'' taken_repo =
     (None, False,
      taken_repo\<lparr>head := Branch ''feat-v2'', branches := [''main'', ''feat'', ''feat-v2'']\<rparr>)"
proof -
  have s: "enter_stash taken_repo = Inr (False, taken_repo)"
    by (simp add: enter_stash_def is_dirty_def taken_repo_def)
  have c1: "checkout_b ''feat'' taken_repo = Inl (GitCommandError ''checkout -b'')"
    by (simp add: checkout_b_def taken_repo_def)
  have c2: "checkout_b ''feat-v2'' taken_repo =
     Inr (taken_repo\<lparr>head := Branch ''feat-v2'', branches := [''main'', ''feat'', ''feat-v2'']\<rparr>)"
    by (simp add: checkout_b_def head_is_valid_def taken_repo_def)
  show ?thesis
    using s c1 c2 isolated_branch_falls_back_to_v2 [OF s c1, of skip_body "''main''"]
    by simp
qed

theorem isolated_branch_v2_taken_counterexample:
  "enter_stash clash_repo = Inr (False, clash_repo) \<and>
   checkout_b ''feat'' clash_repo = Inl (GitCommandError ''checkout -b'') \<and>
   isolated_branch ''main'' ''feat'' skip_body clash_repo =
     (Some (GitCommandError ''checkout -b''), clash_repo)"
proof -
  have s: "enter_stash clash_repo = Inr (False, clash_repo)"
    by (simp add: enter_stash_def is_dirty_def clash_repo_def)
  have c1: "checkout_b ''feat'' clash_repo = Inl (GitCommandError ''checkout -b'')"
    by (simp add: checkout_b_def clash_repo_def)
  have c2: "checkout_b ''feat-v2'' clash_repo = Inl (GitCommandError ''checkout -b'')"
    by (simp add: checkout_b_def clash_repo_def)
  have f: "isolated_finally ''main'' False clash_repo = clash_repo"
    by (simp add: isolated_finally_def checkout_def clash_repo_def)
  have "isolated_branch ''main'' ''feat'' skip_body clash_repo =
          (Some (GitCommandError ''checkout -b''), clash_repo)"
    by (simp add: isolated_branch_def isolated_try_def isolated_enter_def s c1 c2 f)
  with s c1 show ?thesis by simp
qed

section \<open>Claims about the parts modelled from the specification\<close>

lemma stage_files_nothing_stageable:
  "\<forall>f \<in> set files. ex (Some f) \<or> \<not> pe f \<Longrightarrow>
   stage_files ex pe files r = ([], filter (\<lambda>f. ex (Some f)) files, r)"
proof -
  assume a: "\<forall>f \<in> set files. ex (Some f) \<or> \<not> pe f"
  then have "filter (\<lambda>f. \<not> ex (Some f) \<and> pe f) files = []"
    by (simp add: filter_empty_conv)
  then show ?thesis
    by (simp add: stage_files_eq)
qed

lemma stage_removals_loop_nothing:
  "\<forall>f \<in> set fs. ex (Some f) \<or> pe f \<or> \<not> tracked_deleted r f \<Longrightarrow>
   stage_removals_loop ex pe fs (removed, r) = (removed, r)"
  by (induction fs) auto

lemma stage_removals_nothing:
  "\<forall>f \<in> set files. ex (Some f) \<or> pe f \<or> \<not> tracked_deleted r f \<Longrightarrow>
   stage_removals ex pe files r = ([], r)"
  by (simp add: stage_removals_def stage_removals_loop_nothing)

text \<open>
  Claim C3. For every file list whose stageable subset is empty (each entry is excluded, or
  is not on disk and is not a tracked file whose deletion could be staged),
  \<open>create_branch_and_commit(name, files, message)\<close> returns false and leaves the repository
  as it was: the branches are the same, so no branch \<open>name\<close> has appeared, and no commit
  has been made.
\<close>

theorem create_branch_and_commit_noop:
  "\<forall>f \<in> set files. ex (Some f) \<or> (\<not> pe f \<and> \<not> tracked_deleted r f) \<Longrightarrow>
   create_branch_and_commit ex pe orig name files message strategy r = (False, r) \<and>
   branches (snd (create_branch_and_commit ex pe orig name files message strategy r)) =
     branches r \<and>
   commits (snd (create_branch_and_commit ex pe orig name files message strategy r)) =
     commits r \<and>
   head (snd (create_branch_and_commit ex pe orig name files message strategy r)) = head r"
proof -
  assume a: "\<forall>f \<in> set files. ex (Some f) \<or> (\<not> pe f \<and> \<not> tracked_deleted r f)"
  from a have s: "\<forall>f \<in> set files. ex (Some f) \<or> \<not> pe f"
    by blast
  from a have d: "\<forall>f \<in> set files. ex (Some f) \<or> pe f \<or> \<not> tracked_deleted r f"
    by blast
  have "create_branch_and_commit ex pe orig name files message strategy r = (False, r)"
    by (simp add: create_branch_and_commit_def stage_files_nothing_stageable [OF s]
          stage_removals_nothing [OF d])
  then show ?thesis by simp
qed

theorem create_branch_and_commit_noop_witness:
  "secret_excluded (Some ''.env'') \<and>
   \<not> tracked_deleted sample_repo ''gone.py'' \<and>
   create_branch_and_commit secret_excluded (\<lambda>f. f \<noteq> ''gone.py'') ''main'' ''feature/test''
     [''.env'', ''gone.py''] ''feat: nothing'' ''local-merge'' sample_repo = (False, sample_repo)"
proof -
  have e: "secret_excluded (Some ''.env'')"
    by (simp add: secret_excluded_def)
  have t: "\<not> tracked_deleted sample_repo ''gone.py''"
    by (simp add: tracked_deleted_def sample_repo_def item_path_def py_or_def)
  have h: "\<forall>f \<in> set [''.env'', ''gone.py''].
             secret_excluded (Some f) \<or>
             (\<not> (\<lambda>f. f \<noteq> ''gone.py'') f \<and> \<not> tracked_deleted sample_repo f)"
    using e t by simp
  have "create_branch_and_commit secret_excluded (\<lambda>f. f \<noteq> ''gone.py'') ''main''
          ''feature/test'' [''.env'', ''gone.py''] ''feat: nothing'' ''local-merge'' sample_repo =
        (False, sample_repo)"
    using h
    by (rule create_branch_and_commit_noop
        [where ex = secret_excluded and pe = "\<lambda>f. f \<noteq> ''gone.py''" and orig = "''main''"
           and name = "''feature/test''" and files = "[''.env'', ''gone.py'']"
           and message = "''feat: nothing''" and strategy = "''local-merge''"
           and r = sample_repo, THEN conjunct1])
  with e t show ?thesis by (intro conjI)
qed

text \<open>
  The deletion of a tracked file is stageable: on the repository of
  \<open>test_handles_deleted_files\<close> the call stages the removal, commits it on the new branch,
  merges it back and returns true, with HEAD on the original branch again.
\<close>

lemma create_branch_and_commit_deleted_file:
  "tracked_deleted deleted_repo ''to_delete.py'' \<and>
   fst (create_branch_and_commit secret_excluded (\<lambda>f. False) ''main'' ''feature/delete''
          [''to_delete.py''] ''chore: delete file'' ''local-merge'' deleted_repo) = True \<and>
   head (snd (create_branch_and_commit secret_excluded (\<lambda>f. False) ''main'' ''feature/delete''
          [''to_delete.py''] ''chore: delete file'' ''local-merge'' deleted_repo)) =
     Branch ''main'' \<and>
   map commit_paths
     (commits (snd (create_branch_and_commit secret_excluded (\<lambda>f. False) ''main''
          ''feature/delete'' [''to_delete.py''] ''chore: delete file'' ''local-merge''
          deleted_repo))) = [[''to_delete.py''], [''to_delete.py'']]"
proof -
  have t: "tracked_deleted deleted_repo ''to_delete.py''"
    by (simp add: tracked_deleted_def deleted_repo_def item_path_def py_or_def)
  have s: "stage_files secret_excluded (\<lambda>f. False) [''to_delete.py''] deleted_repo =
           ([], [], deleted_repo)"
    by (simp add: stage_files_def secret_excluded_def)
  have m: "stage_removals secret_excluded (\<lambda>f. False) [''to_delete.py''] deleted_repo =
           ([''to_delete.py''], index_remove ''to_delete.py'' deleted_repo)"
    using t by (simp add: stage_removals_def secret_excluded_def)
  have c: "create_branch_and_commit secret_excluded (\<lambda>f. False) ''main'' ''feature/delete''
             [''to_delete.py''] ''chore: delete file'' ''local-merge'' deleted_repo =
           (True,
            deleted_repo\<lparr>commits :=
              [\<lparr>commit_branch = ''feature/delete'', commit_message = ''chore: delete file'',
                commit_paths = [''to_delete.py'']\<rparr>,
               \<lparr>commit_branch = ''main'', commit_message = ''Merge branch feature/delete'',
                commit_paths = [''to_delete.py'']\<rparr>]\<rparr>)"
    by (simp add: create_branch_and_commit_def s m,
        simp add: index_remove_def checkout_or_create_branch_def checkout_b_def
          checkout_def head_is_valid_def commit_def merge_branch_def isolated_finally_def
          Let_def deleted_repo_def)
  have h: "head deleted_repo = Branch ''main''"
    by (simp add: deleted_repo_def)
  show ?thesis
    using t h by (simp add: c)
qed

lemma categorize_loop_without_tracker:
  "categorize_loop None gs (matched, unmatched) =
     (matched, unmatched @ filter (\<lambda>g. group_files g \<noteq> []) gs)"
proof (induction gs arbitrary: unmatched)
  case Nil
  show ?case by simp
next
  case (Cons g gs)
  show ?case
  proof (cases "group_files g = []")
    case True
    then show ?thesis by (simp add: Cons.IH)
  next
    case False
    then show ?thesis
      by (simp add: Cons.IH split: option.splits list.splits)
  qed
qed

text \<open>
  Claim C6. For every list of groups, \<open>categorize(groups, None)\<close> returns an empty matched
  list and, as unmatched list, exactly the input groups whose files are not empty, in their
  order and unchanged, whatever their \<open>issue_key\<close>.
\<close>

theorem categorize_without_tracker:
  "categorize groups None = ([], filter (\<lambda>g. group_files g \<noteq> []) groups)"
  by (simp add: categorize_def categorize_loop_without_tracker)

theorem categorize_without_tracker_witness:
  "categorize
     [\<lparr>group_files = [''a.py''], commit_title = ''feat1'', commit_body = None,
       group_name = None, issue_key = Some ''PROJ-123'', issue_title = None,
       issue_description = None, resolved_issue = None\<rparr>,
      \<lparr>group_files = [], commit_title = ''empty'', commit_body = None,
       group_name = None, issue_key = Some ''PROJ-9'', issue_title = None,
       issue_description = None, resolved_issue = None\<rparr>,
      \<lparr>group_files = [''b.py''], commit_title = ''feat2'', commit_body = None,
       group_name = None, issue_key = None, issue_title = None,
       issue_description = None, resolved_issue = None\<rparr>] None =
   ([],
    [\<lparr>group_files = [''a.py''], commit_title = ''feat1'', commit_body = None,
       group_name = None, issue_key = Some ''PROJ-123'', issue_title = None,
       issue_description = None, resolved_issue = None\<rparr>,
     \<lparr>group_files = [''b.py''], commit_title = ''feat2'', commit_body = None,
       group_name = None, issue_key = None, issue_title = None,
       issue_description = None, resolved_issue = None\<rparr>])"
  by (simp add: categorize_without_tracker)

lemma available_first:
  "\<forall>x \<in> set pre. \<not> P x \<Longrightarrow> P y \<Longrightarrow> filter P (pre @ y # post) = y # filter P post"
  by (simp add: filter_empty_conv)

text \<open>
  Claim C8. Constructing the client with \<open>provider = "auto"\<close> selects the first provider of
  the catalogue, in catalogue order, whose availability check passes: every entry before it
  fails the check. When no provider of the catalogue is available, the construction fails
  with the no-provider error; it returns no client.
\<close>

theorem auto_selects_first_available_provider:
  "cfg_provider cfg = ''auto'' \<Longrightarrow>
   (\<forall>pre name p post.
      catalogue = pre @ (name, p) # post \<and>
      check_provider_available which name p \<and>
      (\<forall>(n, q) \<in> set pre. \<not> check_provider_available which n q) \<longrightarrow>
      LLMClient which catalogue cfg = Inr (make_client cfg name p) \<and>
      provider_name (make_client cfg name p) = name) \<and>
   ((\<forall>(n, q) \<in> set catalogue. \<not> check_provider_available which n q) \<longrightarrow>
      LLMClient which catalogue cfg = Inl NoProviderFound)"
proof (intro conjI allI impI)
  fix pre name p post
  assume auto: "cfg_provider cfg = ''auto''"
    and h: "catalogue = pre @ (name, p) # post \<and>
            check_provider_available which name p \<and>
            (\<forall>(n, q) \<in> set pre. \<not> check_provider_available which n q)"
  let ?P = "\<lambda>(name, p). check_provider_available which name p"
  have "\<forall>x \<in> set pre. \<not> ?P x" using h by auto
  moreover have "?P (name, p)" using h by simp
  ultimately have "filter ?P (pre @ (name, p) # post) = (name, p) # filter ?P post"
    by (rule available_first)
  then show "LLMClient which catalogue cfg = Inr (make_client cfg name p)"
    using auto h by (simp add: LLMClient_def get_available_providers_def)
  show "provider_name (make_client cfg name p) = name"
    by (simp add: make_client_def)
next
  assume auto: "cfg_provider cfg = ''auto''"
    and none: "\<forall>(n, q) \<in> set catalogue. \<not> check_provider_available which n q"
  let ?P = "\<lambda>(name, p). check_provider_available which name p"
  have "filter ?P catalogue = []"
    using none by (auto simp: filter_empty_conv)
  then show "LLMClient which catalogue cfg = Inl NoProviderFound"
    using auto by (simp add: LLMClient_def get_available_providers_def)
qed

theorem auto_selects_first_available_provider_witness:
  "cfg_provider auto_config = ''auto'' \<and>
   LLMClient only_ollama test_catalogue auto_config =
     Inr \<lparr>provider_name = ''ollama'', model = ''llama2'', timeout = 120\<rparr> \<and>
   LLMClient nothing_installed test_catalogue auto_config = Inl NoProviderFound"
proof -
  have h: "cfg_provider auto_config = ''auto''"
    by (simp add: auto_config_def)
  let ?claude = "\<lparr>kind = Cli ''claude'', default_model = ''claude'', install_hint = None\<rparr>"
  let ?ollama = "\<lparr>kind = Api ''ollama'', default_model = ''llama2'', install_hint = None\<rparr>"
  have "test_catalogue = [(''claude-code'', ?claude)] @ (''ollama'', ?ollama) # [] \<and>
        check_provider_available only_ollama ''ollama'' ?ollama \<and>
        (\<forall>(n, q) \<in> set [(''claude-code'', ?claude)]. \<not> check_provider_available only_ollama n q)"
    by (simp add: test_catalogue_def check_provider_available_def only_ollama_def)
  then have a: "LLMClient only_ollama test_catalogue auto_config =
                Inr (make_client auto_config ''ollama'' ?ollama)"
    using auto_selects_first_available_provider
      [where cfg = auto_config and catalogue = test_catalogue and which = only_ollama, OF h]
    by blast
  have "\<forall>(n, q) \<in> set test_catalogue. \<not> check_provider_available nothing_installed n q"
    by (simp add: test_catalogue_def check_provider_available_def nothing_installed_def)
  then have b: "LLMClient nothing_installed test_catalogue auto_config = Inl NoProviderFound"
    using auto_selects_first_available_provider
      [where cfg = auto_config and catalogue = test_catalogue and which = nothing_installed,
        OF h]
    by blast
  have m: "make_client auto_config ''ollama'' ?ollama =
           \<lparr>provider_name = ''ollama'', model = ''llama2'', timeout = 120\<rparr>"
    by (simp add: make_client_def auto_config_def)
  show ?thesis
    using h a b m by simp
qed

text \<open>
  Claim C4. For every input text with no parseable structured content (free prose, for
  one), the list mode of the response parser ends with the structured-output parse error,
  and the single-record update mode on the same text returns the original record unchanged;
  that mode has no error result at all.
\<close>

theorem unstructured_text_list_raises_update_keeps:
  "no_structured_content extract_block clean_output load_yaml output_text \<Longrightarrow>
   parse extract_block clean_output load_yaml output_text =
     Inl (ParseError ''YAML parse error'') \<and>
   parse_update extract_block clean_output load_yaml output_text original_record =
     original_record"
  by (auto simp: no_structured_content_def parse_def parse_update_def
      split: option.splits yaml.splits)

theorem unstructured_text_list_raises_update_keeps_witness:
  "no_structured_content (\<lambda>s. s) (\<lambda>s. s) prose_load ''random prose with no structure'' \<and>
   parse (\<lambda>s. s) (\<lambda>s. s) prose_load ''random prose with no structure'' =
     Inl (ParseError ''YAML parse error'') \<and>
   parse_update (\<lambda>s. s) (\<lambda>s. s) prose_load ''random prose with no structure''
     [''commit_title'' \<mapsto> YScalar ''original title''] =
     [''commit_title'' \<mapsto> YScalar ''original title'']"
proof -
  have h: "no_structured_content (\<lambda>s. s) (\<lambda>s. s) prose_load ''random prose with no structure''"
    by (simp add: no_structured_content_def parse_candidate_def prose_load_def)
  show ?thesis
    using h
      unstructured_text_list_raises_update_keeps
        [where extract_block = "\<lambda>s. s" and clean_output = "\<lambda>s. s"
           and load_yaml = prose_load
           and output_text = "''random prose with no structure''"
           and original_record = "[''commit_title'' \<mapsto> YScalar ''original title'']", OF h]
    by (intro conjI) simp_all
qed

end
